theory Spec2Isabelle
  imports Complex_Main
begin

section \<open>Values of the table engine\<close>

text \<open>
  The program is a sequence of table expressions evaluated by Hail. The embedding keeps
  the Python that builds the expressions (the threshold list, the formatted field names,
  the membership test on the entry schema, the field accesses that raise) and gives each
  engine primitive the meaning its documentation gives it.

  A float field of a result is missing (\<open>hl.null\<close>), not a number, infinite, or finite.
  Finite floats are read as reals: rounding is outside the model. Input fields of the
  coverage matrix are taken as defined and finite; the \<open>median\<close> field keeps its type,
  since \<open>hl.median\<close> divides in the type of its array.
\<close>

datatype error = LookupError string | TypeError

datatype hl_float = Missing | NaN | PosInf | NegInf | Finite real

type_synonym struct = "(string \<times> hl_float) list"

text \<open>Float division \<open>x / d\<close> of two finite values: a zero divisor gives an infinity or
  NaN, never an error and never a missing value.\<close>

definition hl_div :: "real \<Rightarrow> real \<Rightarrow> hl_float" where
  "hl_div x d =
     (if d \<noteq> 0 then Finite (x / d)
      else if 0 < x then PosInf
      else if x < 0 then NegInf
      else NaN)"

text \<open>\<open>0.5 * v\<close> on a float that may be missing or not finite.\<close>

fun hl_half :: "hl_float \<Rightarrow> hl_float" where
  "hl_half (Finite x) = Finite (0.5 * x)"
| "hl_half Missing = Missing"
| "hl_half NaN = NaN"
| "hl_half PosInf = PosInf"
| "hl_half NegInf = NegInf"

text \<open>\<open>hl.agg.sum\<close>: the sum of the records, 0 when there is none.\<close>

definition agg_sum :: "real list \<Rightarrow> real" where
  "agg_sum xs = sum_list xs"

text \<open>A numeric field whose type the source does not fix. The \<open>median\<close> entry field of
  the grouped matrix is \<open>int32\<close> when it was computed from integer depths and \<open>float64\<close>
  otherwise; all entries of one matrix carry it in one type.\<close>

datatype hl_number = Int32 int | Float64 real

fun to_float64 :: "hl_number \<Rightarrow> real" where
  "to_float64 (Int32 i) = of_int i"
| "to_float64 (Float64 x) = x"

text \<open>The values of an \<open>int32\<close> array; nothing for an array of floats.\<close>

fun int32_values :: "hl_number list \<Rightarrow> int list option" where
  "int32_values [] = Some []"
| "int32_values (Int32 i # xs) = map_option ((#) i) (int32_values xs)"
| "int32_values (Float64 x # xs) = None"

text \<open>\<open>hl.median\<close> of a collected array: the array is sorted; an empty array has a
  missing median, an odd length gives the middle element, an even length the two middle
  elements added and divided by 2 in the element type of the array: the integer
  division, rounding down, for \<open>int32\<close>.\<close>

definition median_float64 :: "real list \<Rightarrow> real option" where
  "median_float64 xs =
     (let a = sort xs; size = length a; midIdx = (size - 1) div 2
      in if size = 0 then None
         else if size mod 2 \<noteq> 0 then Some (a ! midIdx)
         else Some ((a ! midIdx + a ! (midIdx + 1)) / 2))"

definition median_int32 :: "int list \<Rightarrow> int option" where
  "median_int32 xs =
     (let a = sort xs; size = length a; midIdx = (size - 1) div 2
      in if size = 0 then None
         else if size mod 2 \<noteq> 0 then Some (a ! midIdx)
         else Some ((a ! midIdx + a ! (midIdx + 1)) div 2))"

definition hl_median :: "hl_number list \<Rightarrow> hl_number option" where
  "hl_median xs =
     (case int32_values xs of
        Some ys \<Rightarrow> map_option Int32 (median_int32 ys)
      | None \<Rightarrow> map_option Float64 (median_float64 (map to_float64 xs)))"

text \<open>A number that may be missing, as the \<open>float64\<close> field of a struct or as a factor
  of a float product.\<close>

fun as_float64 :: "hl_number option \<Rightarrow> hl_float" where
  "as_float64 None = Missing"
| "as_float64 (Some v) = Finite (to_float64 v)"

section \<open>Python: ranges and formatted floats\<close>

text \<open>\<open>range(start, stop, step)\<close> for a positive step.\<close>

definition py_range :: "nat \<Rightarrow> nat \<Rightarrow> nat \<Rightarrow> nat list" where
  "py_range start stop step =
     map (\<lambda>k. start + k * step) [0..<(stop - start + step - 1) div step]"

definition digit_char :: "nat \<Rightarrow> char" where
  "digit_char d = ''0123456789'' ! d"

fun str_nat :: "nat \<Rightarrow> string" where
  "str_nat k = (if k < 10 then [digit_char k] else str_nat (k div 10) @ [digit_char (k mod 10)])"

declare str_nat.simps [simp del]

text \<open>\<open>f'{float(i)}'\<close> and \<open>f'{i/2}'\<close> for a non-negative integer \<open>i\<close>: Python prints the
  shortest decimal of the float, which for these values has one fractional digit.\<close>

definition str_float :: "nat \<Rightarrow> string" where
  "str_float i = str_nat i @ ''.0''"

definition str_half :: "nat \<Rightarrow> string" where
  "str_half i = str_nat (i div 2) @ (if even i then ''.0'' else ''.5'')"

text \<open>\<open>[1] + list(range(5,31,5)) + [50, 100]\<close>\<close>

definition thresholds :: "nat list" where
  "thresholds = [1] @ py_range 5 31 5 @ [50, 100]"

text \<open>\<open>f'over_{float(i)}'\<close>, the column of the source matrix at the full threshold, and
  \<open>f'over_{i/2}'\<close>, the name at the half threshold.\<close>

definition over_full :: "nat \<Rightarrow> string" where
  "over_full i = ''over_'' @ str_float i"

definition over_half :: "nat \<Rightarrow> string" where
  "over_half i = ''over_'' @ str_half i"

section \<open>Haploid-adjusted coverage of one locus\<close>

text \<open>One column of the grouped coverage matrix seen from one locus: the column fields
  \<open>sex\<close> and \<open>qc_platform\<close> and the entry fields \<open>mean\<close>, \<open>median\<close>, \<open>n\<close> and the
  threshold columns, read by name (\<open>mt[name]\<close>). The aggregations of
  \<open>get_haploid_coverage_struct\<close> run over the columns of the matrix at the locus, or over
  those of one platform under \<open>hl.agg.filter\<close>: the list \<open>mt\<close> below.\<close>

record sample =
  sex :: string
  qc_platform :: string
  mean :: real
  median :: hl_number
  n_samples :: real
  over :: "string \<Rightarrow> real"

text \<open>The first struct of \<open>get_haploid_coverage_struct\<close> (autosomes and PAR).\<close>

definition autosome_or_par_struct :: "sample list \<Rightarrow> struct" where
  "autosome_or_par_struct mt =
     [(''mean'', hl_div (0.5 * agg_sum (map (\<lambda>s. mean s * n_samples s) mt))
                        (agg_sum (map n_samples mt))),
      (''median'', hl_half (as_float64 (hl_median (map median mt))))]
     @ map (\<lambda>i. (over_half i,
                  hl_div (agg_sum (map (\<lambda>s. over s (over_full i)) mt))
                         (agg_sum (map n_samples mt))))
           thresholds"

text \<open>The second struct (every other locus). \<open>entry\<close> is the list of the field names
  of the matrix's entries, which \<open>f'over_{i/2}' in mt.entry\<close> tests. The two branches of
  \<open>hl.cond(mt.sex == 'male', mt.median, 0.5*mt.median)\<close> have one type, \<open>float64\<close>, to which
  an \<open>int32\<close> median is converted.\<close>

definition non_par_struct :: "string list \<Rightarrow> sample list \<Rightarrow> struct" where
  "non_par_struct entry mt =
     [(''mean'', hl_div (agg_sum (map (\<lambda>s. if sex s = ''male'' then mean s * n_samples s
                                            else 0.5 * mean s * n_samples s) mt))
                        (agg_sum (map n_samples mt))),
      (''median'', as_float64 (hl_median (map (\<lambda>s. if sex s = ''male''
                                                     then Float64 (to_float64 (median s))
                                                     else Float64 (0.5 * to_float64 (median s))) mt)))]
     @ map (\<lambda>i. (over_half i,
                  if \<not> over_half i \<in> set entry then Missing
                  else hl_div (agg_sum (map (\<lambda>s. if sex s = ''male''
                                                  then over s (over_half i)
                                                  else over s (over_full i)) mt))
                              (agg_sum (map n_samples mt))))
           thresholds"

text \<open>Python builds both structs before \<open>hl.cond\<close> chooses: the first one reads
  \<open>mt[f'over_{float(i)}']\<close> for every threshold, which raises when the entry schema has
  no such field. \<open>in_autosome_or_par\<close> is the value of \<open>mt.locus.in_autosome_or_par()\<close>
  at the locus.\<close>

definition get_haploid_coverage_struct ::
  "string list \<Rightarrow> bool \<Rightarrow> sample list \<Rightarrow> error + struct" where
  "get_haploid_coverage_struct entry in_autosome_or_par mt =
     (case find (\<lambda>i. over_full i \<notin> set entry) thresholds of
        Some i \<Rightarrow> Inl (LookupError (over_full i))
      | None \<Rightarrow> Inr (if in_autosome_or_par then autosome_or_par_struct mt
                     else non_par_struct entry mt))"

text \<open>Reading a field of the result; nothing when the call raised or the struct has
  no such field.\<close>

definition struct_field :: "error + struct \<Rightarrow> string \<Rightarrow> hl_float option" where
  "struct_field res name = (case res of Inl e \<Rightarrow> None | Inr s \<Rightarrow> map_of s name)"

section \<open>Gene model builder\<close>

record locus =
  contig :: string
  position :: int

text \<open>A locus interval as the engine holds it. \<open>import_gtf\<close> builds the interval of a
  feature from the 1-based \<open>start\<close> and \<open>end\<close> columns of the annotation file with both
  bounds included.\<close>

record interval =
  i_start :: locus
  i_end :: locus
  includes_start :: bool
  includes_end :: bool

text \<open>The loci an interval contains, for an interval on one contig.\<close>

definition interval_contains :: "interval \<Rightarrow> locus \<Rightarrow> bool" where
  "interval_contains iv l \<longleftrightarrow>
     contig l = contig (i_start iv) \<and> contig l = contig (i_end iv) \<and>
     (position (i_start iv) < position l \<or>
        (includes_start iv \<and> position l = position (i_start iv))) \<and>
     (position l < position (i_end iv) \<or>
        (includes_end iv \<and> position l = position (i_end iv)))"

record gene =
  gene_id :: string
  gene_name :: string

record gtf_row = gene +
  feature :: string
  transcript_type :: "string option"
  tag :: "string option"
  interval :: interval

record gene_base = gene +
  locus :: locus

text \<open>\<open>hl.range(start, stop)\<close>: the integers from \<open>start\<close>, \<open>stop\<close> excluded.\<close>

definition hl_range :: "int \<Rightarrow> int \<Rightarrow> int list" where
  "hl_range a b = [a..b - 1]"

text \<open>The filter of line 15; an attribute the feature does not have is not equal to
  the literal, and the row is dropped.\<close>

definition is_basic_cds :: "gtf_row \<Rightarrow> bool" where
  "is_basic_cds r \<longleftrightarrow>
     feature r = ''CDS'' \<and> transcript_type r = Some ''protein_coding'' \<and> tag r = Some ''basic''"

text \<open>The array annotated as \<open>locus\<close> on line 16.\<close>

definition annotate_locus :: "gtf_row \<Rightarrow> locus list" where
  "annotate_locus r =
     map (\<lambda>x. \<lparr>contig = contig (i_start (interval r)), position = x\<rparr>)
         (hl_range (position (i_start (interval r))) (position (i_end (interval r))))"

text \<open>\<open>select('gene_id', 'locus', 'gene_name').explode('locus')\<close> on one row: one row
  per element of the array, none for an empty array.\<close>

definition explode_locus :: "gtf_row \<Rightarrow> gene_base list" where
  "explode_locus r =
     map (\<lambda>l. \<lparr>gene_id = gene_id r, gene_name = gene_name r, locus = l\<rparr>) (annotate_locus r)"

text \<open>\<open>distinct()\<close> on a keyed table keeps one row for each key; the model keeps the
  first in the order of the list (the engine's sorting by key is not modelled).\<close>

fun distinct_by :: "('a \<Rightarrow> 'k) \<Rightarrow> 'a list \<Rightarrow> 'a list" where
  "distinct_by key [] = []"
| "distinct_by key (x # xs) = x # distinct_by key (filter (\<lambda>y. key y \<noteq> key x) xs)"

definition import_cds_from_gtf :: "gtf_row list \<Rightarrow> gene_base list" where
  "import_cds_from_gtf gtf =
     distinct_by (\<lambda>b. (locus b, gene_id b)) (concat (map explode_locus (filter is_basic_cds gtf)))"

section \<open>Per-base join\<close>

text \<open>A coverage aggregate table keyed by locus: the names of its struct fields with
  the field names of each struct type, and the row at a locus when there is one.\<close>

record cov_ht =
  ht_fields :: "(string \<times> string list) list"
  ht_row :: "locus \<Rightarrow> (string \<times> struct) list option"

record gene_cov = gene_base +
  cov :: "(string \<times> struct option) list"
  mappability :: "real option"

text \<open>The joined table: \<open>row_value\<close> lists the struct fields of the row value with the
  field names of their types (the row value has \<open>gene_name\<close> and \<open>mappability\<close> besides).\<close>

record gene_cov_ht =
  row_value :: "(string \<times> string list) list"
  ht_rows :: "gene_cov list"

text \<open>\<open>**exomes_cov[gtf.locus]\<close>: every field of the indexed table, missing when the
  table has no row at the locus.\<close>

definition splat :: "cov_ht \<Rightarrow> locus \<Rightarrow> (string \<times> struct option) list" where
  "splat ht l =
     map (\<lambda>f. (f, case ht_row ht l of None \<Rightarrow> None | Some row \<Rightarrow> map_of row f))
         (map fst (ht_fields ht))"

text \<open>Lines 76 to 80, on the tables that \<open>get_cov_ht\<close>, \<open>get_ucsc_mappability\<close> and
  \<open>import_cds_from_gtf\<close> return. Python refuses a call in which a keyword argument is
  given twice. \<open>ucsc_mappability\<close> gives the \<open>duke_35_map\<close> field of the mappability table
  at a locus.\<close>

definition compute_per_base_cds_coverage ::
  "cov_ht \<Rightarrow> cov_ht \<Rightarrow> (locus \<Rightarrow> real option) \<Rightarrow> gene_base list \<Rightarrow> error + gene_cov_ht" where
  "compute_per_base_cds_coverage exomes_cov genomes_cov ucsc_mappability gtf =
     (if \<not> distinct (map fst (ht_fields exomes_cov) @ map fst (ht_fields genomes_cov) @ [''mappability''])
      then Inl TypeError
      else Inr \<lparr>row_value = ht_fields exomes_cov @ ht_fields genomes_cov,
                ht_rows = map (\<lambda>r. \<lparr>gene_id = gene_id r, gene_name = gene_name r, locus = locus r,
                                     cov = splat exomes_cov (locus r) @ splat genomes_cov (locus r),
                                     mappability = ucsc_mappability (locus r)\<rparr>) gtf\<rparr>)"

section \<open>Gene summary exporter\<close>

definition min_good_coverage_dp :: string where
  "min_good_coverage_dp = ''over_10.0''"

definition min_good_coverage_prop :: real where
  "min_good_coverage_prop = 0.8"

text \<open>\<open>v >= c\<close> on a float: missing stays missing, NaN compares false.\<close>

fun hl_ge :: "hl_float \<Rightarrow> real \<Rightarrow> bool option" where
  "hl_ge Missing c = None"
| "hl_ge NaN c = Some False"
| "hl_ge PosInf c = Some True"
| "hl_ge NegInf c = Some False"
| "hl_ge (Finite x) c = Some (x \<ge> c)"

text \<open>\<open>hl.agg.fraction\<close>: the records where the predicate is true over all records; a
  missing predicate counts as false.\<close>

definition agg_fraction :: "bool option list \<Rightarrow> hl_float" where
  "agg_fraction ps = hl_div (real (length (filter (\<lambda>p. p = Some True) ps))) (real (length ps))"

text \<open>\<open>hl.agg.mean\<close>: the mean of the defined values.\<close>

definition defined_values :: "'a option list \<Rightarrow> 'a list" where
  "defined_values vs = concat (map (\<lambda>v. case v of None \<Rightarrow> [] | Some x \<Rightarrow> [x]) vs)"

definition agg_mean :: "real option list \<Rightarrow> hl_float" where
  "agg_mean vs = hl_div (agg_sum (defined_values vs)) (real (length (defined_values vs)))"

text \<open>\<open>hl.agg.min\<close> and \<open>hl.agg.max\<close> over the records of a group, which has a first
  record.\<close>

definition agg_min :: "int \<Rightarrow> int list \<Rightarrow> int" where
  "agg_min x xs = fold min xs x"

definition agg_max :: "int \<Rightarrow> int list \<Rightarrow> int" where
  "agg_max x xs = fold max xs x"

definition startswith :: "string \<Rightarrow> string \<Rightarrow> bool" where
  "startswith x p \<longleftrightarrow> take (length p) x = p"

text \<open>\<open>x.split("_")\<close> and \<open>hl.delimit(parts, "_")\<close>.\<close>

fun split_underscore :: "string \<Rightarrow> string list" where
  "split_underscore [] = [[]]"
| "split_underscore (c # cs) =
     (if c = CHR ''_'' then [] # split_underscore cs
      else (case split_underscore cs of [] \<Rightarrow> [[c]] | w # ws \<Rightarrow> (c # w) # ws))"

fun delimit :: "string list \<Rightarrow> string" where
  "delimit [] = []"
| "delimit [w] = w"
| "delimit (w # ws) = w @ ''_'' @ delimit ws"

text \<open>\<open>cov[x][min_good_coverage_dp]\<close> on one row: missing when the struct is. The rows
  follow the schema of the table, and a schema without the field is refused before any
  row is read (see \<open>export_gene_coverage\<close>).\<close>

definition cov_field :: "gene_cov \<Rightarrow> string \<Rightarrow> string \<Rightarrow> hl_float" where
  "cov_field r x name =
     (case map_of (cov r) x of
        Some (Some s) \<Rightarrow> (case map_of s name of Some v \<Rightarrow> v | None \<Rightarrow> Missing)
      | _ \<Rightarrow> Missing)"

record gene_summary = gene +
  gene_interval :: interval
  mean_mappability :: hl_float
  data_type :: string
  platform :: string
  frac_well_covered_bases :: hl_float

text \<open>The aggregation of one group of \<open>group_by(cov.gene_id)\<close>, exploded on \<open>cov_stats\<close>:
  one row for each selected column. A group has at least one row, whose gene name and
  contig \<open>hl.agg.take(_, 1)[0]\<close> returns. The approximate median of the mappability and
  the mean of the fraction over the bases are not modelled.\<close>

fun aggregate_gene :: "string list \<Rightarrow> gene_cov list \<Rightarrow> gene_summary list" where
  "aggregate_gene xs [] = []"
| "aggregate_gene xs (r # rs) =
     map (\<lambda>x. \<lparr>gene_id = gene_id r,
                gene_name = gene_name r,
                gene_interval =
                  \<lparr>i_start = \<lparr>contig = contig (locus r),
                              position = agg_min (position (locus r)) (map (\<lambda>q. position (locus q)) rs)\<rparr>,
                   i_end = \<lparr>contig = contig (locus r),
                            position = agg_max (position (locus r)) (map (\<lambda>q. position (locus q)) rs)\<rparr>,
                   includes_start = True, includes_end = False\<rparr>,
                mean_mappability = agg_mean (map mappability (r # rs)),
                data_type = (case split_underscore x of [] \<Rightarrow> [] | w # ws \<Rightarrow> w),
                platform = delimit (tl (split_underscore x)),
                frac_well_covered_bases =
                  agg_fraction (map (\<lambda>q. hl_ge (cov_field q x min_good_coverage_dp)
                                               min_good_coverage_prop) (r # rs))\<rparr>)
         xs"

text \<open>\<open>hl.filter_intervals(cov, [hl.parse_locus_interval('Y')], keep=False)\<close>: the
  interval is the whole contig.\<close>

definition filter_out_Y :: "gene_cov list \<Rightarrow> gene_cov list" where
  "filter_out_Y rs = filter (\<lambda>r. contig (locus r) \<noteq> ''Y'') rs"

text \<open>The columns the comprehension of line 108 keeps (\<open>gene_name\<close> and \<open>mappability\<close>
  have neither prefix).\<close>

definition cov_columns :: "gene_cov_ht \<Rightarrow> string list" where
  "cov_columns ht =
     filter (\<lambda>x. startswith x ''exomes'' \<or> startswith x ''genomes'') (map fst (row_value ht))"

text \<open>The rows of the exported table. Reading \<open>cov[x][min_good_coverage_dp]\<close> raises
  when the struct type of a kept column has no such field.\<close>

definition export_gene_coverage :: "gene_cov_ht \<Rightarrow> error + gene_summary list" where
  "export_gene_coverage ht =
     (let rs = filter_out_Y (ht_rows ht) in
      if list_ex (\<lambda>(x, fs). x \<in> set (cov_columns ht) \<and> min_good_coverage_dp \<notin> set fs) (row_value ht)
      then Inl (LookupError min_good_coverage_dp)
      else Inr (concat (map (\<lambda>g. aggregate_gene (cov_columns ht) (filter (\<lambda>r. gene_id r = g) rs))
                            (remdups (map gene_id rs)))))"

section \<open>Reference formulas and examples\<close>


text \<open>The median as statistics has it: the mean of the two middle values of the sorted
  values, which are one and the same value when their number is odd.\<close>

definition middle_values :: "'a::linorder list \<Rightarrow> 'a \<times> 'a" where
  "middle_values xs = (sort xs ! ((length xs - 1) div 2), sort xs ! (length xs div 2))"

definition statistical_median :: "real list \<Rightarrow> real" where
  "statistical_median xs = (fst (middle_values xs) + snd (middle_values xs)) / 2"

text \<open>The fraction over a threshold on a locus outside the autosomes and PAR as the
  specification words it: males read at the full threshold, the others at the half
  threshold.\<close>

definition fraction_over_as_stated :: "nat \<Rightarrow> sample list \<Rightarrow> hl_float" where
  "fraction_over_as_stated i mt =
     hl_div (\<Sum>s\<leftarrow>mt. if sex s = ''male'' then over s (over_full i) else over s (over_half i))
            (\<Sum>s\<leftarrow>mt. n_samples s)"

text \<open>The field names of the result, in order; nothing when the call raised.\<close>

definition struct_names :: "error + struct \<Rightarrow> string list option" where
  "struct_names res = (case res of Inl e \<Rightarrow> None | Inr s \<Rightarrow> Some (map fst s))"

text \<open>A field that is present and not missing.\<close>

definition computed :: "hl_float option \<Rightarrow> bool" where
  "computed v = (case v of None \<Rightarrow> False | Some x \<Rightarrow> x \<noteq> Missing)"

text \<open>Two columns and an entry schema with the nine full-threshold columns, for the
  worked examples.\<close>

definition male_group :: sample where
  "male_group = \<lparr>sex = ''male'', qc_platform = ''agilent'', mean = 30, median = Int32 30, n_samples = 10,
                  over = (\<lambda>name. if name = ''over_5.0'' then 8 else if name = ''over_10.0'' then 6 else 0)\<rparr>"

definition female_group :: sample where
  "female_group = \<lparr>sex = ''female'', qc_platform = ''agilent'', mean = 40, median = Int32 44, n_samples = 5,
                  over = (\<lambda>name. if name = ''over_5.0'' then 5 else if name = ''over_10.0'' then 4 else 0)\<rparr>"








definition grouped_entry_schema :: "string list" where
  "grouped_entry_schema =
     [''mean'', ''median'', ''n'', ''over_1.0'', ''over_5.0'', ''over_10.0'', ''over_15.0'',
      ''over_20.0'', ''over_25.0'', ''over_30.0'', ''over_50.0'', ''over_100.0'']"

text \<open>Features, tables and rows for the worked examples below.\<close>

definition base_102 :: locus where
  "base_102 = \<lparr>contig = ''1'', position = 102\<rparr>"

definition base_101 :: locus where
  "base_101 = \<lparr>contig = ''1'', position = 101\<rparr>"

definition cds_100_102 :: gtf_row where
  "cds_100_102 =
     \<lparr>gene_id = ''ENSG01'', gene_name = ''GA'', feature = ''CDS'',
      transcript_type = Some ''protein_coding'', tag = Some ''basic'',
      interval = \<lparr>i_start = \<lparr>contig = ''1'', position = 100\<rparr>,
                  i_end = \<lparr>contig = ''1'', position = 102\<rparr>,
                  includes_start = True, includes_end = True\<rparr>\<rparr>"

definition cds_101_102 :: gtf_row where
  "cds_101_102 =
     \<lparr>gene_id = ''ENSG01'', gene_name = ''GA'', feature = ''CDS'',
      transcript_type = Some ''protein_coding'', tag = Some ''basic'',
      interval = \<lparr>i_start = \<lparr>contig = ''1'', position = 101\<rparr>,
                  i_end = \<lparr>contig = ''1'', position = 102\<rparr>,
                  includes_start = True, includes_end = True\<rparr>\<rparr>"

definition cds_other_gene :: gtf_row where
  "cds_other_gene =
     \<lparr>gene_id = ''ENSG02'', gene_name = ''GB'', feature = ''CDS'',
      transcript_type = Some ''protein_coding'', tag = Some ''basic'',
      interval = \<lparr>i_start = \<lparr>contig = ''1'', position = 101\<rparr>,
                  i_end = \<lparr>contig = ''1'', position = 102\<rparr>,
                  includes_start = True, includes_end = True\<rparr>\<rparr>"

definition exomes_example :: cov_ht where
  "exomes_example =
     \<lparr>ht_fields = [(''exomes_all'', [''mean'', ''median'', ''over_10.0''])],
      ht_row = (\<lambda>l. if l = base_101
                     then Some [(''exomes_all'', [(''mean'', Finite 30), (''median'', Finite 31),
                                                  (''over_10.0'', Finite 0.9)])]
                     else None)\<rparr>"

definition genomes_example :: cov_ht where
  "genomes_example =
     \<lparr>ht_fields = [(''genomes_all'', [''mean'', ''median'', ''over_10.0''])],
      ht_row = (\<lambda>l. None)\<rparr>"

definition bases_example :: "gene_base list" where
  "bases_example =
     [\<lparr>gene_id = ''ENSG01'', gene_name = ''GA'', locus = base_101\<rparr>,
      \<lparr>gene_id = ''ENSG01'', gene_name = ''GA'', locus = base_102\<rparr>]"

definition mappability_example :: "locus \<Rightarrow> real option" where
  "mappability_example l = (if l = base_101 then Some 1 else None)"

definition row_101 :: gene_cov where
  "row_101 = \<lparr>gene_id = ''ENSG01'', gene_name = ''GA'', locus = base_101,
              cov = [(''exomes_all'', Some [(''mean'', Finite 30), (''over_10.0'', Finite 0.9)]),
                     (''genomes_all'', None)],
              mappability = Some 1\<rparr>"

definition row_100 :: gene_cov where
  "row_100 = \<lparr>gene_id = ''ENSG01'', gene_name = ''GA'', locus = \<lparr>contig = ''1'', position = 100\<rparr>,
              cov = [(''exomes_all'', Some [(''mean'', Finite 12), (''over_10.0'', Finite 0.5)]),
                     (''genomes_all'', None)],
              mappability = None\<rparr>"

definition row_Y :: gene_cov where
  "row_Y = \<lparr>gene_id = ''ENSG01'', gene_name = ''GA'', locus = \<lparr>contig = ''Y'', position = 5\<rparr>,
            cov = [(''exomes_all'', Some [(''mean'', Finite 40), (''over_10.0'', Finite 1)]),
                   (''genomes_all'', None)],
            mappability = Some 0\<rparr>"

definition per_base_example :: gene_cov_ht where
  "per_base_example =
     \<lparr>row_value = [(''exomes_all'', [''mean'', ''over_10.0'']), (''genomes_all'', [''mean'', ''over_10.0''])],
      ht_rows = [row_101, row_Y, row_100, row_Y]\<rparr>"

definition per_base_example_no_Y :: gene_cov_ht where
  "per_base_example_no_Y =
     \<lparr>row_value = [(''exomes_all'', [''mean'', ''over_10.0'']), (''genomes_all'', [''mean'', ''over_10.0''])],
      ht_rows = [row_101, row_100]\<rparr>"

definition summary_example :: "gene_summary list" where
  "summary_example =
     [\<lparr>gene_id = ''ENSG01'', gene_name = ''GA'',
       gene_interval = \<lparr>i_start = \<lparr>contig = ''1'', position = 100\<rparr>,
                         i_end = \<lparr>contig = ''1'', position = 101\<rparr>,
                         includes_start = True, includes_end = False\<rparr>,
       mean_mappability = Finite 1, data_type = ''exomes'', platform = ''all'',
       frac_well_covered_bases = Finite (1 / 2)\<rparr>,
      \<lparr>gene_id = ''ENSG01'', gene_name = ''GA'',
       gene_interval = \<lparr>i_start = \<lparr>contig = ''1'', position = 100\<rparr>,
                         i_end = \<lparr>contig = ''1'', position = 101\<rparr>,
                         includes_start = True, includes_end = False\<rparr>,
       mean_mappability = Finite 1, data_type = ''genomes'', platform = ''all'',
       frac_well_covered_bases = Finite 0\<rparr>]"

definition joined_example :: gene_cov_ht where
  "joined_example =
     \<lparr>row_value = [(''exomes_all'', [''mean'', ''median'', ''over_10.0'']),
                   (''genomes_all'', [''mean'', ''median'', ''over_10.0''])],
      ht_rows =
        [\<lparr>gene_id = ''ENSG01'', gene_name = ''GA'', locus = base_101,
          cov = [(''exomes_all'', Some [(''mean'', Finite 30), (''median'', Finite 31),
                                        (''over_10.0'', Finite 0.9)]),
                 (''genomes_all'', None)],
          mappability = Some 1\<rparr>,
         \<lparr>gene_id = ''ENSG01'', gene_name = ''GA'', locus = base_102,
          cov = [(''exomes_all'', None), (''genomes_all'', None)],
          mappability = None\<rparr>]\<rparr>"

section \<open>The haploid-adjusted struct\<close>

lemma thresholds_eq: "thresholds = [1, 5, 10, 15, 20, 25, 30, 50, 100]"
  by (simp add: thresholds_def py_range_def upt_rec)

lemma over_half_names:
  "map over_half thresholds =
     [''over_0.5'', ''over_2.5'', ''over_5.0'', ''over_7.5'', ''over_10.0'', ''over_12.5'',
      ''over_15.0'', ''over_25.0'', ''over_50.0'']"
  by (simp add: thresholds_eq over_half_def str_half_def str_nat.simps digit_char_def)

lemma over_full_names:
  "map over_full thresholds =
     [''over_1.0'', ''over_5.0'', ''over_10.0'', ''over_15.0'', ''over_20.0'', ''over_25.0'',
      ''over_30.0'', ''over_50.0'', ''over_100.0'']"
  by (simp add: thresholds_eq over_full_def str_float_def str_nat.simps digit_char_def)

lemma distinct_over_half: "distinct (map over_half thresholds)"
  by (simp add: over_half_names)

lemma map_of_over_half:
  assumes "i \<in> set thresholds"
  shows "map_of (map (\<lambda>i. (over_half i, g i)) thresholds) (over_half i) = Some (g i)"
proof -
  have "distinct (map fst (map (\<lambda>i. (over_half i, g i)) thresholds))"
    using distinct_over_half by (simp add: comp_def)
  moreover have "(over_half i, g i) \<in> set (map (\<lambda>i. (over_half i, g i)) thresholds)"
    using assms by auto
  ultimately show ?thesis by (rule map_of_is_SomeI)
qed

lemma over_half_not_mean: "over_half i \<noteq> ''mean''" "over_half i \<noteq> ''median''"
  by (simp_all add: over_half_def)

lemma no_raise:
  assumes "set (map over_full thresholds) \<subseteq> set entry"
  shows "get_haploid_coverage_struct entry b mt =
           Inr (if b then autosome_or_par_struct mt else non_par_struct entry mt)"
proof -
  have "find (\<lambda>i. over_full i \<notin> set entry) thresholds = None"
    using assms by (auto simp: find_None_iff)
  then show ?thesis by (simp add: get_haploid_coverage_struct_def)
qed


lemma field_over_non_par:
  assumes "set (map over_full thresholds) \<subseteq> set entry" "i \<in> set thresholds"
  shows "struct_field (get_haploid_coverage_struct entry False mt) (over_half i) =
     Some (if over_half i \<notin> set entry then Missing
           else hl_div (agg_sum (map (\<lambda>s. if sex s = ''male'' then over s (over_half i)
                                           else over s (over_full i)) mt))
                       (agg_sum (map n_samples mt)))"
  using assms(2)
  by (simp add: no_raise[OF assms(1)] struct_field_def non_par_struct_def over_half_not_mean
      map_of_over_half del: set_map)

lemma field_over_autosome:
  assumes "set (map over_full thresholds) \<subseteq> set entry" "i \<in> set thresholds"
  shows "struct_field (get_haploid_coverage_struct entry True mt) (over_half i) =
     Some (hl_div (agg_sum (map (\<lambda>s. over s (over_full i)) mt)) (agg_sum (map n_samples mt)))"
  using assms(2)
  by (simp add: no_raise[OF assms(1)] struct_field_def autosome_or_par_struct_def over_half_not_mean
      map_of_over_half del: set_map)

subsection \<open>The median of a collected array\<close>











lemma int32_values_Some:
  assumes "int32_values xs = Some ys"
  shows "map to_float64 xs = map real_of_int ys \<and> length ys = length xs"
  using assms
proof (induction xs arbitrary: ys rule: int32_values.induct)
  case 1
  then show ?case by simp
next
  case (2 i xs)
  then show ?case by (cases "int32_values xs") auto
next
  case (3 x xs)
  then show ?case by simp
qed

text \<open>The reference median has at most half of the values below it and at most half
  above it.\<close>

lemma count_le_prefix:
  assumes "\<And>i. k \<le> i \<Longrightarrow> i < length ys \<Longrightarrow> \<not> P (ys ! i)"
  shows "length (filter P ys) \<le> k"
proof -
  have "filter P (drop k ys) = []"
  proof (rule filter_False, rule ballI)
    fix x assume "x \<in> set (drop k ys)"
    then obtain j where j: "j < length (drop k ys)" "x = drop k ys ! j"
      by (auto simp: in_set_conv_nth)
    then have "x = ys ! (k + j)" "k + j < length ys" by auto
    with assms [of "k + j"] show "\<not> P x" by simp
  qed
  moreover have "filter P ys = filter P (take k ys) @ filter P (drop k ys)"
    by (simp flip: filter_append)
  moreover have "length (filter P (take k ys)) \<le> k"
    by (rule order_trans [OF length_filter_le]) simp
  ultimately show ?thesis by simp
qed

lemma count_le_suffix:
  assumes "\<And>i. i < k \<Longrightarrow> i < length ys \<Longrightarrow> \<not> P (ys ! i)"
  shows "length (filter P ys) \<le> length ys - k"
proof -
  have "filter P (take k ys) = []"
  proof (rule filter_False, rule ballI)
    fix x assume "x \<in> set (take k ys)"
    then obtain j where j: "j < length (take k ys)" "x = take k ys ! j"
      by (auto simp: in_set_conv_nth)
    then have "x = ys ! j" "j < k" "j < length ys" by auto
    with assms [of j] show "\<not> P x" by simp
  qed
  moreover have "filter P ys = filter P (take k ys) @ filter P (drop k ys)"
    by (simp flip: filter_append)
  moreover have "length (filter P (drop k ys)) \<le> length ys - k"
    by (rule order_trans [OF length_filter_le]) simp
  ultimately show ?thesis by simp
qed

lemma statistical_median_is_median:
  assumes "xs \<noteq> []"
  shows "2 * length (filter (\<lambda>x. x < statistical_median xs) xs) \<le> length xs
       \<and> 2 * length (filter (\<lambda>x. statistical_median xs < x) xs) \<le> length xs"
proof -
  let ?ys = "sort xs" and ?n = "length xs"
  let ?k1 = "(?n - 1) div 2" and ?k2 = "?n div 2"
  let ?m = "statistical_median xs"
  have n: "0 < ?n" using assms by simp
  have k: "?k1 \<le> ?k2" "?k2 < ?n" "?k1 < ?n" using n by presburger+
  have srt: "sorted ?ys" by simp
  have len: "length ?ys = ?n" by simp
  have m: "?m = (?ys ! ?k1 + ?ys ! ?k2) / 2"
    by (simp add: statistical_median_def middle_values_def)
  have ab: "?ys ! ?k1 \<le> ?ys ! ?k2"
    using srt k by (simp add: sorted_nth_mono)
  have lo: "?ys ! ?k1 \<le> ?m" and hi: "?m \<le> ?ys ! ?k2"
    using ab unfolding m by simp_all
  have below: "length (filter (\<lambda>x. x < ?m) ?ys) \<le> ?k2"
  proof (rule count_le_prefix)
    fix i assume "?k2 \<le> i" "i < length ?ys"
    then have "?ys ! ?k2 \<le> ?ys ! i" using srt by (simp add: sorted_nth_mono)
    with hi show "\<not> ?ys ! i < ?m" by simp
  qed
  have above: "length (filter (\<lambda>x. ?m < x) ?ys) \<le> length ?ys - (?k1 + 1)"
  proof (rule count_le_suffix)
    fix i assume "i < ?k1 + 1" "i < length ?ys"
    then have "?ys ! i \<le> ?ys ! ?k1" using srt k by (simp add: sorted_nth_mono)
    with lo show "\<not> ?m < ?ys ! i" by simp
  qed
  have cnt: "length (filter P ?ys) = length (filter P xs)" for P
    by (simp add: filter_sort)
  have "2 * ?k2 \<le> ?n" by simp
  moreover have "2 * (?n - (?k1 + 1)) \<le> ?n" using n by presburger
  ultimately show ?thesis
    using below above unfolding cnt len by linarith
qed

subsection \<open>Mean and median of the struct\<close>

lemma hl_median_Nil: "hl_median [] = None"
  by (simp add: hl_median_def median_int32_def)

lemma int32_values_Nil_iff: "int32_values xs = Some [] \<longleftrightarrow> xs = []"
proof
  assume "int32_values xs = Some []"
  from int32_values_Some [OF this] show "xs = []" by simp
qed simp





lemma median_field_autosome:
  assumes "set (map over_full thresholds) \<subseteq> set entry"
  shows "struct_field (get_haploid_coverage_struct entry True mt) ''median''
           = Some (hl_half (as_float64 (hl_median (map median mt))))"
  by (simp add: no_raise [OF assms] struct_field_def autosome_or_par_struct_def del: set_map)

lemma median_field_non_par:
  assumes "set (map over_full thresholds) \<subseteq> set entry"
  shows "struct_field (get_haploid_coverage_struct entry False mt) ''median''
           = Some (as_float64 (hl_median (map (\<lambda>s. Float64 (if sex s = ''male''
                       then to_float64 (median s) else 0.5 * to_float64 (median s))) mt)))"
  by (simp add: no_raise [OF assms] struct_field_def non_par_struct_def if_distrib [of Float64]
      del: set_map)




lemma median_field_empty:
  assumes "set (map over_full thresholds) \<subseteq> set entry"
  shows "struct_field (get_haploid_coverage_struct entry True []) ''median'' = Some Missing"
    and "struct_field (get_haploid_coverage_struct entry False []) ''median'' = Some Missing"
  unfolding median_field_non_par [OF assms] median_field_autosome [OF assms]
  by (simp_all add: hl_median_Nil)



lemma schema_has_full: "set (map over_full thresholds) \<subseteq> set grouped_entry_schema"
  by (simp add: over_full_names grouped_entry_schema_def)

lemma over_half_values:
  "over_half 1 = ''over_0.5''" "over_half (Suc 0) = ''over_0.5''" "over_half 5 = ''over_2.5''" "over_half 10 = ''over_5.0''"
  "over_half 15 = ''over_7.5''" "over_half 20 = ''over_10.0''" "over_half 25 = ''over_12.5''"
  "over_half 30 = ''over_15.0''" "over_half 50 = ''over_25.0''" "over_half 100 = ''over_50.0''"
  by (simp_all add: over_half_def str_half_def str_nat.simps digit_char_def)

lemma over_full_values:
  "over_full 1 = ''over_1.0''" "over_full (Suc 0) = ''over_1.0''" "over_full 5 = ''over_5.0''" "over_full 10 = ''over_10.0''"
  "over_full 15 = ''over_15.0''" "over_full 20 = ''over_20.0''" "over_full 25 = ''over_25.0''"
  "over_full 30 = ''over_30.0''" "over_full 50 = ''over_50.0''" "over_full 100 = ''over_100.0''"
  by (simp_all add: over_full_def str_float_def str_nat.simps digit_char_def)

lemma hl_div_not_missing: "hl_div x d \<noteq> Missing"
  by (simp add: hl_div_def)




text \<open>C1, as the code has it: on a locus outside the autosomes and PAR, for a threshold
  whose half-threshold column exists, the adjusted fraction is the sum over the samples
  of (male: the value of the half-threshold column \<open>over_{i/2}\<close>; other: the value of the
  full-threshold column \<open>over_{i}\<close>) divided by \<open>\<Sum>n\<close>.\<close>

theorem fraction_over_non_par:
  assumes "set (map over_full thresholds) \<subseteq> set entry"
    and "i \<in> set thresholds"
    and "over_half i \<in> set entry"
  shows "struct_field (get_haploid_coverage_struct entry False mt) (over_half i) =
           Some (hl_div (\<Sum>s\<leftarrow>mt. if sex s = ''male'' then over s (over_half i)
                                     else over s (over_full i))
                        (\<Sum>s\<leftarrow>mt. n_samples s))"
  using assms(3) by (simp add: field_over_non_par [OF assms(1,2)] agg_sum_def)

theorem fraction_over_non_par_witness:
  "set (map over_full thresholds) \<subseteq> set grouped_entry_schema
   \<and> 10 \<in> set thresholds
   \<and> over_half 10 \<in> set grouped_entry_schema
   \<and> struct_field (get_haploid_coverage_struct grouped_entry_schema False
        [male_group, female_group]) (over_half 10) = Some (Finite (4 / 5))"
proof -
  have h2: "10 \<in> set thresholds" by (simp add: thresholds_eq)
  have h3: "over_half 10 \<in> set grouped_entry_schema"
    by (simp add: over_half_values grouped_entry_schema_def)
  from fraction_over_non_par [OF schema_has_full h2 h3, of "[male_group, female_group]"]
  show ?thesis
    using h2 h3
    by (simp add: schema_has_full over_half_values over_full_values male_group_def
        female_group_def hl_div_def del: set_map)
qed

text \<open>With males read at the full threshold and the others at the half threshold the
  value differs: one male group with 8 of 10 samples over 5 and 6 of 10 over 10.\<close>

theorem fraction_over_as_stated_counterexample:
  "struct_field (get_haploid_coverage_struct grouped_entry_schema False [male_group])
       (over_half 10) = Some (Finite (4 / 5))
   \<and> fraction_over_as_stated 10 [male_group] = Finite (3 / 5)
   \<and> struct_field (get_haploid_coverage_struct grouped_entry_schema False [male_group])
       (over_half 10) \<noteq> Some (fraction_over_as_stated 10 [male_group])"
proof -
  have h2: "10 \<in> set thresholds" by (simp add: thresholds_eq)
  have "struct_field (get_haploid_coverage_struct grouped_entry_schema False [male_group])
       (over_half 10) = Some (Finite (4 / 5))"
    using field_over_non_par [OF schema_has_full h2, of "[male_group]"]
    by (simp add: over_half_values over_full_values grouped_entry_schema_def male_group_def
        hl_div_def agg_sum_def)
  moreover have "fraction_over_as_stated 10 [male_group] = Finite (3 / 5)"
    by (simp add: fraction_over_as_stated_def over_half_values over_full_values
        male_group_def hl_div_def)
  ultimately show ?thesis by simp
qed

text \<open>C4: on a locus outside the autosomes and PAR, a reported threshold whose
  half-threshold column is absent from the entry schema has a missing field: the call
  returns a struct, and the field is neither absent nor zero.\<close>

theorem absent_half_column_null:
  assumes "set (map over_full thresholds) \<subseteq> set entry"
    and "i \<in> set thresholds"
    and "over_half i \<notin> set entry"
  shows "get_haploid_coverage_struct entry False mt = Inr (non_par_struct entry mt)
       \<and> struct_field (get_haploid_coverage_struct entry False mt) (over_half i) = Some Missing
       \<and> struct_field (get_haploid_coverage_struct entry False mt) (over_half i) \<noteq> Some (Finite 0)"
  using assms(3) field_over_non_par [OF assms(1,2), of mt] no_raise [OF assms(1), of False mt]
  by simp

theorem absent_half_column_null_witness:
  "set (map over_full thresholds) \<subseteq> set grouped_entry_schema
   \<and> 1 \<in> set thresholds
   \<and> over_half 1 \<notin> set grouped_entry_schema
   \<and> struct_field (get_haploid_coverage_struct grouped_entry_schema False
        [male_group, female_group]) ''over_0.5'' = Some Missing"
proof -
  have h2: "1 \<in> set thresholds" by (simp add: thresholds_eq)
  have h3: "over_half 1 \<notin> set grouped_entry_schema"
    by (simp add: over_half_values grouped_entry_schema_def)
  from absent_half_column_null [OF schema_has_full h2 h3, of "[male_group, female_group]"]
  have "struct_field (get_haploid_coverage_struct grouped_entry_schema False
          [male_group, female_group]) (over_half 1) = Some Missing"
    by blast
  then show ?thesis
    using h2 h3 by (simp add: schema_has_full over_half_values del: set_map)
qed


lemma autosome_or_par_names:
  "map fst (autosome_or_par_struct mt) =
     [''mean'', ''median'', ''over_0.5'', ''over_2.5'', ''over_5.0'', ''over_7.5'',
      ''over_10.0'', ''over_12.5'', ''over_15.0'', ''over_25.0'', ''over_50.0'']"
proof -
  have "map fst (autosome_or_par_struct mt) = ''mean'' # ''median'' # map over_half thresholds"
    by (simp add: autosome_or_par_struct_def comp_def)
  then show ?thesis by (simp only: over_half_names)
qed

lemma non_par_names:
  "map fst (non_par_struct entry mt) =
     [''mean'', ''median'', ''over_0.5'', ''over_2.5'', ''over_5.0'', ''over_7.5'',
      ''over_10.0'', ''over_12.5'', ''over_15.0'', ''over_25.0'', ''over_50.0'']"
proof -
  have "map fst (non_par_struct entry mt) = ''mean'' # ''median'' # map over_half thresholds"
    by (simp add: non_par_struct_def comp_def)
  then show ?thesis by (simp only: over_half_names)
qed

text \<open>C5, as the code has it: the struct has \<open>mean\<close>, \<open>median\<close> and exactly one
  fraction field for each of the nine halves 0.5, 2.5, 5, 7.5, 10, 12.5, 15, 25, 50 of
  the source thresholds, on both kinds of locus.\<close>

theorem over_fields_exact:
  assumes "set (map over_full thresholds) \<subseteq> set entry"
  shows "struct_names (get_haploid_coverage_struct entry b mt) =
           Some (''mean'' # ''median'' # map over_half thresholds)
       \<and> struct_names (get_haploid_coverage_struct entry b mt) =
           Some [''mean'', ''median'', ''over_0.5'', ''over_2.5'', ''over_5.0'', ''over_7.5'',
                 ''over_10.0'', ''over_12.5'', ''over_15.0'', ''over_25.0'', ''over_50.0'']
       \<and> distinct (''mean'' # ''median'' # map over_half thresholds)"
proof -
  have "struct_names (get_haploid_coverage_struct entry b mt) =
           Some [''mean'', ''median'', ''over_0.5'', ''over_2.5'', ''over_5.0'', ''over_7.5'',
                 ''over_10.0'', ''over_12.5'', ''over_15.0'', ''over_25.0'', ''over_50.0'']"
    unfolding no_raise [OF assms] struct_names_def
    by (cases b) (simp_all only: if_True if_False sum.case autosome_or_par_names non_par_names)
  moreover have "distinct (''mean'' # ''median'' # map over_half thresholds)"
    unfolding over_half_names by simp
  ultimately show ?thesis
    unfolding over_half_names by (simp only: simp_thms)
qed

theorem over_fields_exact_witness:
  "set (map over_full thresholds) \<subseteq> set grouped_entry_schema
   \<and> struct_names (get_haploid_coverage_struct grouped_entry_schema True [male_group]) =
       Some [''mean'', ''median'', ''over_0.5'', ''over_2.5'', ''over_5.0'', ''over_7.5'',
             ''over_10.0'', ''over_12.5'', ''over_15.0'', ''over_25.0'', ''over_50.0'']"
proof -
  from over_fields_exact [OF schema_has_full, of True "[male_group]"]
  have "struct_names (get_haploid_coverage_struct grouped_entry_schema True [male_group]) =
       Some [''mean'', ''median'', ''over_0.5'', ''over_2.5'', ''over_5.0'', ''over_7.5'',
             ''over_10.0'', ''over_12.5'', ''over_15.0'', ''over_25.0'', ''over_50.0'']"
    by (rule conjunct1 [OF conjunct2])
  with schema_has_full show ?thesis by (rule conjI)
qed

text \<open>The threshold 1 of the set as the specification lists it has no field: its name
  would be \<open>over_1.0\<close>.\<close>

theorem threshold_one_counterexample:
  "over_half 2 = ''over_1.0''
   \<and> get_haploid_coverage_struct grouped_entry_schema True [male_group]
        = Inr (autosome_or_par_struct [male_group])
   \<and> map_of (autosome_or_par_struct [male_group]) (over_half 2) = None
   \<and> get_haploid_coverage_struct grouped_entry_schema False [male_group]
        = Inr (non_par_struct grouped_entry_schema [male_group])
   \<and> map_of (non_par_struct grouped_entry_schema [male_group]) (over_half 2) = None"
proof -
  have n: "over_half 2 = ''over_1.0''"
    by (simp add: over_half_def str_half_def str_nat.simps digit_char_def)
  have "''over_1.0'' \<notin> set (map fst (autosome_or_par_struct [male_group]))"
    unfolding autosome_or_par_names by simp
  then have a: "map_of (autosome_or_par_struct [male_group]) ''over_1.0'' = None"
    by (simp add: map_of_eq_None_iff)
  have "''over_1.0'' \<notin> set (map fst (non_par_struct grouped_entry_schema [male_group]))"
    unfolding non_par_names by simp
  then have b: "map_of (non_par_struct grouped_entry_schema [male_group]) ''over_1.0'' = None"
    by (simp add: map_of_eq_None_iff)
  show ?thesis
    by (simp only: n a b no_raise [OF schema_has_full] if_True if_False simp_thms)
qed

text \<open>C10: with the nine full-threshold columns in the entry schema and none of
  \<open>over_0.5\<close>, \<open>over_2.5\<close>, \<open>over_7.5\<close>, \<open>over_12.5\<close>, a locus outside the autosomes and PAR
  has exactly these four fields missing; \<open>over_5.0\<close>, \<open>over_10.0\<close>, \<open>over_15.0\<close>,
  \<open>over_25.0\<close> and \<open>over_50.0\<close> are computed, and so is the field the exporter reads.\<close>

theorem null_fields_of_grouped_schema:
  assumes "set (map over_full thresholds) \<subseteq> set entry"
    and "''over_0.5'' \<notin> set entry" and "''over_2.5'' \<notin> set entry"
    and "''over_7.5'' \<notin> set entry" and "''over_12.5'' \<notin> set entry"
  shows "struct_field (get_haploid_coverage_struct entry False mt) ''over_0.5'' = Some Missing
       \<and> struct_field (get_haploid_coverage_struct entry False mt) ''over_2.5'' = Some Missing
       \<and> struct_field (get_haploid_coverage_struct entry False mt) ''over_7.5'' = Some Missing
       \<and> struct_field (get_haploid_coverage_struct entry False mt) ''over_12.5'' = Some Missing
       \<and> computed (struct_field (get_haploid_coverage_struct entry False mt) ''over_5.0'')
       \<and> computed (struct_field (get_haploid_coverage_struct entry False mt) ''over_10.0'')
       \<and> computed (struct_field (get_haploid_coverage_struct entry False mt) ''over_15.0'')
       \<and> computed (struct_field (get_haploid_coverage_struct entry False mt) ''over_25.0'')
       \<and> computed (struct_field (get_haploid_coverage_struct entry False mt) ''over_50.0'')
       \<and> computed (struct_field (get_haploid_coverage_struct entry False mt) min_good_coverage_dp)"
proof -
  have full: "''over_5.0'' \<in> set entry" "''over_10.0'' \<in> set entry" "''over_15.0'' \<in> set entry"
    "''over_25.0'' \<in> set entry" "''over_50.0'' \<in> set entry"
    using assms(1) by (simp_all add: over_full_names)
  have f: "\<And>i. i \<in> set thresholds \<Longrightarrow>
     struct_field (get_haploid_coverage_struct entry False mt) (over_half i) =
     Some (if over_half i \<notin> set entry then Missing
           else hl_div (agg_sum (map (\<lambda>s. if sex s = ''male'' then over s (over_half i)
                                           else over s (over_full i)) mt))
                       (agg_sum (map n_samples mt)))"
    by (rule field_over_non_par [OF assms(1)])
  have "struct_field (get_haploid_coverage_struct entry False mt) ''over_0.5'' = Some Missing"
    using f [of 1] assms(2) by (simp add: thresholds_eq over_half_values)
  moreover have "struct_field (get_haploid_coverage_struct entry False mt) ''over_2.5'' = Some Missing"
    using f [of 5] assms(3) by (simp add: thresholds_eq over_half_values)
  moreover have "struct_field (get_haploid_coverage_struct entry False mt) ''over_7.5'' = Some Missing"
    using f [of 15] assms(4) by (simp add: thresholds_eq over_half_values)
  moreover have "struct_field (get_haploid_coverage_struct entry False mt) ''over_12.5'' = Some Missing"
    using f [of 25] assms(5) by (simp add: thresholds_eq over_half_values)
  moreover have "computed (struct_field (get_haploid_coverage_struct entry False mt) ''over_5.0'')"
    using f [of 10] full by (simp add: thresholds_eq over_half_values computed_def hl_div_not_missing)
  moreover have c10: "computed (struct_field (get_haploid_coverage_struct entry False mt) ''over_10.0'')"
    using f [of 20] full by (simp add: thresholds_eq over_half_values computed_def hl_div_not_missing)
  moreover have "computed (struct_field (get_haploid_coverage_struct entry False mt) ''over_15.0'')"
    using f [of 30] full by (simp add: thresholds_eq over_half_values computed_def hl_div_not_missing)
  moreover have "computed (struct_field (get_haploid_coverage_struct entry False mt) ''over_25.0'')"
    using f [of 50] full by (simp add: thresholds_eq over_half_values computed_def hl_div_not_missing)
  moreover have "computed (struct_field (get_haploid_coverage_struct entry False mt) ''over_50.0'')"
    using f [of 100] full by (simp add: thresholds_eq over_half_values computed_def hl_div_not_missing)
  moreover have "computed (struct_field (get_haploid_coverage_struct entry False mt) min_good_coverage_dp)"
    using c10 by (simp add: min_good_coverage_dp_def)
  ultimately show ?thesis by blast
qed

theorem null_fields_of_grouped_schema_witness:
  "set (map over_full thresholds) \<subseteq> set grouped_entry_schema
   \<and> ''over_0.5'' \<notin> set grouped_entry_schema \<and> ''over_2.5'' \<notin> set grouped_entry_schema
   \<and> ''over_7.5'' \<notin> set grouped_entry_schema \<and> ''over_12.5'' \<notin> set grouped_entry_schema
   \<and> struct_field (get_haploid_coverage_struct grouped_entry_schema False
        [male_group, female_group]) ''over_12.5'' = Some Missing
   \<and> computed (struct_field (get_haploid_coverage_struct grouped_entry_schema False
        [male_group, female_group]) ''over_10.0'')"
proof -
  have h: "''over_0.5'' \<notin> set grouped_entry_schema" "''over_2.5'' \<notin> set grouped_entry_schema"
    "''over_7.5'' \<notin> set grouped_entry_schema" "''over_12.5'' \<notin> set grouped_entry_schema"
    by (simp_all add: grouped_entry_schema_def)
  from null_fields_of_grouped_schema [OF schema_has_full h, of "[male_group, female_group]"]
  have "struct_field (get_haploid_coverage_struct grouped_entry_schema False
          [male_group, female_group]) ''over_12.5'' = Some Missing
      \<and> computed (struct_field (get_haploid_coverage_struct grouped_entry_schema False
          [male_group, female_group]) ''over_10.0'')"
    by blast
  then show ?thesis using h schema_has_full by blast
qed

section \<open>Rows of the gene model\<close>

lemma length_hl_range: "length (hl_range a b) = nat (b - a)"
  by (simp add: hl_range_def)

lemma set_hl_range: "set (hl_range a b) = {x. a \<le> x \<and> x < b}"
  by (auto simp: hl_range_def)

lemma length_explode_locus:
  "length (explode_locus r) = nat (position (i_end (interval r)) - position (i_start (interval r)))"
  by (simp add: explode_locus_def annotate_locus_def length_hl_range)

lemma explode_locus_gene:
  "b \<in> set (explode_locus r) \<Longrightarrow> gene_id b = gene_id r \<and> gene_name b = gene_name r"
  by (auto simp: explode_locus_def)

lemma positions_explode_locus:
  "map (\<lambda>b. position (locus b)) (explode_locus r) =
     hl_range (position (i_start (interval r))) (position (i_end (interval r)))"
  by (simp add: explode_locus_def annotate_locus_def comp_def)

lemma end_base_not_exploded:
  "i_end (interval r) \<notin> locus ` set (explode_locus r)"
  by (auto simp: explode_locus_def annotate_locus_def set_hl_range)

lemma end_base_contained:
  assumes "includes_end iv" "contig (i_start iv) = contig (i_end iv)"
    "position (i_start iv) \<le> position (i_end iv)" "includes_start iv"
  shows "interval_contains iv (i_end iv)"
  using assms by (auto simp: interval_contains_def)

text \<open>A feature whose interval includes both bounds covers one base more than it has
  rows.\<close>

lemma closed_interval_positions:
  assumes "includes_start iv" "includes_end iv" "contig (i_end iv) = contig (i_start iv)"
  shows "{p. interval_contains iv \<lparr>contig = contig (i_start iv), position = p\<rparr>}
           = {position (i_start iv)..position (i_end iv)}"
  using assms by (auto simp: interval_contains_def)

lemma explode_one_row_short:
  assumes "includes_start (interval r)" "includes_end (interval r)"
    and "contig (i_end (interval r)) = contig (i_start (interval r))"
    and "position (i_start (interval r)) \<le> position (i_end (interval r))"
  shows "card {p. interval_contains (interval r)
                    \<lparr>contig = contig (i_start (interval r)), position = p\<rparr>}
           = length (explode_locus r) + 1"
  unfolding closed_interval_positions [OF assms(1,2,3)] length_explode_locus
  using assms(4) by simp

lemma distinct_by_count:
  "length (filter (\<lambda>y. key y = k) (distinct_by key xs)) = (if k \<in> key ` set xs then 1 else 0)"
proof (induction key xs rule: distinct_by.induct)
  case (1 key)
  then show ?case by simp
next
  case (2 key x xs)
  show ?case
  proof (cases "key x = k")
    case True
    then have "k \<notin> key ` set (filter (\<lambda>y. key y \<noteq> key x) xs)" by auto
    with 2 True show ?thesis by simp
  next
    case False
    then have "k \<in> key ` set (filter (\<lambda>y. key y \<noteq> key x) xs) \<longleftrightarrow> k \<in> key ` set xs"
      by auto
    with 2 False show ?thesis by auto
  qed
qed

lemma set_distinct_by_subset: "set (distinct_by key xs) \<subseteq> set xs"
  by (induction key xs rule: distinct_by.induct) auto

lemma one_row_per_exploded_key:
  assumes "r \<in> set gtf" "is_basic_cds r" "l \<in> set (annotate_locus r)"
  shows "length (filter (\<lambda>b. locus b = l \<and> gene_id b = gene_id r) (import_cds_from_gtf gtf)) = 1"
proof -
  have "\<lparr>gene_id = gene_id r, gene_name = gene_name r, locus = l\<rparr> \<in> set (explode_locus r)"
    using assms(3) by (simp add: explode_locus_def)
  then have "(l, gene_id r) \<in> (\<lambda>b. (locus b, gene_id b)) `
      set (concat (map explode_locus (filter is_basic_cds gtf)))"
    using assms(1,2) by force
  then show ?thesis
    using distinct_by_count [of "\<lambda>b. (locus b, gene_id b)" "(l, gene_id r)"
        "concat (map explode_locus (filter is_basic_cds gtf))"]
    by (simp add: import_cds_from_gtf_def)
qed

lemma length_filter_disj:
  assumes "\<And>x. \<not> (P x \<and> Q x)"
  shows "length (filter (\<lambda>x. P x \<or> Q x) xs) = length (filter P xs) + length (filter Q xs)"
  using assms by (induction xs) auto

lemma two_rows_for_two_genes:
  assumes "r1 \<in> set gtf" "is_basic_cds r1" "l \<in> set (annotate_locus r1)"
    and "r2 \<in> set gtf" "is_basic_cds r2" "l \<in> set (annotate_locus r2)"
    and "gene_id r1 \<noteq> gene_id r2"
  shows "length (filter (\<lambda>b. locus b = l \<and> (gene_id b = gene_id r1 \<or> gene_id b = gene_id r2))
                        (import_cds_from_gtf gtf)) = 2"
proof -
  have "length (filter (\<lambda>b. (locus b = l \<and> gene_id b = gene_id r1) \<or>
                              (locus b = l \<and> gene_id b = gene_id r2)) (import_cds_from_gtf gtf))
        = length (filter (\<lambda>b. locus b = l \<and> gene_id b = gene_id r1) (import_cds_from_gtf gtf))
        + length (filter (\<lambda>b. locus b = l \<and> gene_id b = gene_id r2) (import_cds_from_gtf gtf))"
    using assms(7) by (intro length_filter_disj) auto
  moreover have "(\<lambda>b. locus b = l \<and> (gene_id b = gene_id r1 \<or> gene_id b = gene_id r2))
      = (\<lambda>b::gene_base. (locus b = l \<and> gene_id b = gene_id r1) \<or> (locus b = l \<and> gene_id b = gene_id r2))"
    by auto
  ultimately show ?thesis
    using one_row_per_exploded_key [OF assms(1,2,3)] one_row_per_exploded_key [OF assms(4,5,6)]
    by simp
qed

text \<open>C3: a kept CDS feature from 100 to 102 covers three bases, and the builder gives
  it two rows, for 100 and 101; the last base has none.\<close>

theorem last_base_of_cds_has_no_row:
  "is_basic_cds cds_100_102
   \<and> interval_contains (interval cds_100_102) base_102
   \<and> map (\<lambda>b. position (locus b)) (import_cds_from_gtf [cds_100_102]) = [100, 101]
   \<and> filter (\<lambda>b. locus b = base_102) (import_cds_from_gtf [cds_100_102]) = []"
  by (simp add: is_basic_cds_def cds_100_102_def interval_contains_def base_102_def
      import_cds_from_gtf_def explode_locus_def annotate_locus_def hl_range_def)

text \<open>C8: the base 102 is covered by two kept CDS features, of one gene or of two, and
  has no row in the gene model; the base 101, covered by the same features, has one row
  for one gene and two rows for two genes.\<close>

theorem shared_last_base_has_no_row:
  "is_basic_cds cds_100_102 \<and> is_basic_cds cds_101_102 \<and> is_basic_cds cds_other_gene
   \<and> gene_id cds_100_102 = gene_id cds_101_102
   \<and> gene_id cds_100_102 \<noteq> gene_id cds_other_gene
   \<and> interval_contains (interval cds_100_102) base_102
   \<and> interval_contains (interval cds_101_102) base_102
   \<and> interval_contains (interval cds_other_gene) base_102
   \<and> filter (\<lambda>b. locus b = base_102) (import_cds_from_gtf [cds_100_102, cds_101_102]) = []
   \<and> filter (\<lambda>b. locus b = base_102) (import_cds_from_gtf [cds_100_102, cds_other_gene]) = []
   \<and> map gene_id (filter (\<lambda>b. locus b = base_101) (import_cds_from_gtf [cds_100_102, cds_101_102]))
        = [''ENSG01'']
   \<and> map gene_id (filter (\<lambda>b. locus b = base_101) (import_cds_from_gtf [cds_100_102, cds_other_gene]))
        = [''ENSG01'', ''ENSG02'']"
  by (simp add: is_basic_cds_def cds_100_102_def cds_101_102_def cds_other_gene_def
      interval_contains_def base_102_def base_101_def
      import_cds_from_gtf_def explode_locus_def annotate_locus_def hl_range_def)

section \<open>The join keeps the gene model\<close>

lemma map_of_splat_None:
  assumes "ht_row ht l = None" "f \<in> set (map fst (ht_fields ht))"
  shows "map_of (splat ht l) f = Some None"
proof -
  have "map_of (map (\<lambda>g. (g, None)) fs) f = Some None" if "f \<in> set fs" for fs :: "string list"
    using that by (induction fs) auto
  from this [OF assms(2)] show ?thesis
    using assms(1) by (simp add: splat_def del: set_map map_map)
qed

lemma map_fst_splat: "map fst (splat ht l) = map fst (ht_fields ht)"
  by (simp add: splat_def comp_def)

lemma map_of_append_left:
  assumes "k \<in> set (map fst xs)"
  shows "map_of (xs @ ys) k = map_of xs k"
  using assms by (induction xs) auto

lemma map_of_append_right:
  assumes "k \<notin> set (map fst xs)"
  shows "map_of (xs @ ys) k = map_of ys k"
  using assms by (induction xs) auto

lemma gene_base_eta:
  "\<lparr>gene_id = gene_id r, gene_name = gene_name r, locus = locus r\<rparr> = (r::gene_base)"
  by (cases r) simp

text \<open>C7: the join keeps every row of the gene model, in order and unchanged in its
  own fields; at a locus where a coverage table has no row every field taken from that
  table is missing, and where the mappability table has no row the mappability is
  missing.\<close>

theorem join_keeps_every_base:
  assumes "distinct (map fst (ht_fields exomes_cov) @ map fst (ht_fields genomes_cov) @ [''mappability''])"
  shows "\<exists>ht. compute_per_base_cds_coverage exomes_cov genomes_cov ucsc gtf = Inr ht
     \<and> map (\<lambda>j. \<lparr>gene_id = gene_id j, gene_name = gene_name j, locus = locus j\<rparr>) (ht_rows ht) = gtf
     \<and> (\<forall>j \<in> set (ht_rows ht).
          (ht_row exomes_cov (locus j) = None \<longrightarrow>
             (\<forall>f \<in> set (map fst (ht_fields exomes_cov)). map_of (cov j) f = Some None))
        \<and> (ht_row genomes_cov (locus j) = None \<longrightarrow>
             (\<forall>f \<in> set (map fst (ht_fields genomes_cov)). map_of (cov j) f = Some None))
        \<and> (ucsc (locus j) = None \<longrightarrow> mappability j = None))"
proof -
  let ?row = "\<lambda>r::gene_base. \<lparr>gene_id = gene_id r, gene_name = gene_name r, locus = locus r,
        cov = splat exomes_cov (locus r) @ splat genomes_cov (locus r),
        mappability = ucsc (locus r)\<rparr>"
  let ?ht = "\<lparr>row_value = ht_fields exomes_cov @ ht_fields genomes_cov, ht_rows = map ?row gtf\<rparr>"
  have res: "compute_per_base_cds_coverage exomes_cov genomes_cov ucsc gtf = Inr ?ht"
    using assms by (simp add: compute_per_base_cds_coverage_def)
  have keep: "map (\<lambda>j. \<lparr>gene_id = gene_id j, gene_name = gene_name j, locus = locus j\<rparr>) (ht_rows ?ht) = gtf"
    by (simp add: comp_def gene_base_eta)
  have disj: "\<And>f. f \<in> set (map fst (ht_fields genomes_cov)) \<Longrightarrow> f \<notin> set (map fst (ht_fields exomes_cov))"
    using assms by auto
  have ex: "map_of (cov (?row r)) f = Some None"
    if "ht_row exomes_cov (locus r) = None" "f \<in> set (map fst (ht_fields exomes_cov))" for r f
  proof -
    have "f \<in> set (map fst (splat exomes_cov (locus r)))"
      using that(2) by (simp only: map_fst_splat)
    then have "map_of (splat exomes_cov (locus r) @ splat genomes_cov (locus r)) f
        = map_of (splat exomes_cov (locus r)) f"
      by (rule map_of_append_left)
    then have "map_of (cov (?row r)) f = map_of (splat exomes_cov (locus r)) f"
      by (simp del: map_of_append)
    then show ?thesis
      using map_of_splat_None [OF that] by (simp only:)
  qed
  have ge: "map_of (cov (?row r)) f = Some None"
    if "ht_row genomes_cov (locus r) = None" "f \<in> set (map fst (ht_fields genomes_cov))" for r f
  proof -
    have "f \<notin> set (map fst (splat exomes_cov (locus r)))"
      using disj [OF that(2)] by (simp only: map_fst_splat not_False_eq_True)
    then have "map_of (splat exomes_cov (locus r) @ splat genomes_cov (locus r)) f
        = map_of (splat genomes_cov (locus r)) f"
      by (rule map_of_append_right)
    then have "map_of (cov (?row r)) f = map_of (splat genomes_cov (locus r)) f"
      by (simp del: map_of_append)
    then show ?thesis
      using map_of_splat_None [OF that] by (simp only:)
  qed
  have nulls: "\<forall>j \<in> set (ht_rows ?ht).
          (ht_row exomes_cov (locus j) = None \<longrightarrow>
             (\<forall>f \<in> set (map fst (ht_fields exomes_cov)). map_of (cov j) f = Some None))
        \<and> (ht_row genomes_cov (locus j) = None \<longrightarrow>
             (\<forall>f \<in> set (map fst (ht_fields genomes_cov)). map_of (cov j) f = Some None))
        \<and> (ucsc (locus j) = None \<longrightarrow> mappability j = None)"
  proof
    fix j assume "j \<in> set (ht_rows ?ht)"
    then obtain r where j: "j = ?row r" by auto
    show "(ht_row exomes_cov (locus j) = None \<longrightarrow>
             (\<forall>f \<in> set (map fst (ht_fields exomes_cov)). map_of (cov j) f = Some None))
        \<and> (ht_row genomes_cov (locus j) = None \<longrightarrow>
             (\<forall>f \<in> set (map fst (ht_fields genomes_cov)). map_of (cov j) f = Some None))
        \<and> (ucsc (locus j) = None \<longrightarrow> mappability j = None)"
      unfolding j using ex [of r] ge [of r] by simp
  qed
  from res keep nulls show ?thesis by blast
qed

lemma join_example:
  "compute_per_base_cds_coverage exomes_example genomes_example mappability_example bases_example
     = Inr joined_example"
  by (simp add: compute_per_base_cds_coverage_def exomes_example_def genomes_example_def
      mappability_example_def bases_example_def joined_example_def splat_def
      base_101_def base_102_def)

theorem join_keeps_every_base_witness:
  "distinct (map fst (ht_fields exomes_example) @ map fst (ht_fields genomes_example) @ [''mappability''])
   \<and> compute_per_base_cds_coverage exomes_example genomes_example mappability_example
        bases_example = Inr joined_example
   \<and> map (\<lambda>j. \<lparr>gene_id = gene_id j, gene_name = gene_name j, locus = locus j\<rparr>)
        (ht_rows joined_example) = bases_example
   \<and> ht_row genomes_example base_101 = None
   \<and> map (\<lambda>j. map_of (cov j) ''genomes_all'') (ht_rows joined_example) = [Some None, Some None]"
proof -
  have h: "distinct (map fst (ht_fields exomes_example) @ map fst (ht_fields genomes_example) @ [''mappability''])"
    by (simp add: exomes_example_def genomes_example_def)
  from join_keeps_every_base [OF h, of mappability_example bases_example]
  have "map (\<lambda>j. \<lparr>gene_id = gene_id j, gene_name = gene_name j, locus = locus j\<rparr>)
        (ht_rows joined_example) = bases_example"
    unfolding join_example by (elim exE conjE) (simp only: sum.inject)
  moreover have "ht_row genomes_example base_101 = None"
    by (simp add: genomes_example_def)
  moreover have "map (\<lambda>j. map_of (cov j) ''genomes_all'') (ht_rows joined_example) = [Some None, Some None]"
    by (simp add: joined_example_def)
  ultimately show ?thesis
    using h join_example by (simp only: simp_thms)
qed

section \<open>The exported summary\<close>

lemma agg_min_le: "agg_min x xs \<le> x"
  unfolding agg_min_def
proof (induction xs arbitrary: x)
  case Nil
  then show ?case by simp
next
  case (Cons a xs)
  have "fold min xs (min a x) \<le> min a x" by (rule Cons.IH)
  then show ?case by simp
qed

lemma agg_max_ge: "x \<le> agg_max x xs"
  unfolding agg_max_def
proof (induction xs arbitrary: x)
  case Nil
  then show ?case by simp
next
  case (Cons a xs)
  have "max a x \<le> fold max xs (max a x)" by (rule Cons.IH)
  then show ?case by simp
qed

lemma agg_min_is_Min: "agg_min x xs = Min (set (x # xs))"
  by (simp only: agg_min_def Min.set_eq_fold)

lemma agg_max_is_Max: "agg_max x xs = Max (set (x # xs))"
  by (simp only: agg_max_def Max.set_eq_fold)

lemma agg_fraction_range:
  assumes "ps \<noteq> []"
  shows "\<exists>f. agg_fraction ps = Finite f \<and> 0 \<le> f \<and> f \<le> 1"
proof -
  have "length (filter (\<lambda>p. p = Some True) ps) \<le> length ps" by simp
  then have "real (length (filter (\<lambda>p. p = Some True) ps)) / real (length ps) \<le> 1"
    using assms by (simp add: divide_le_eq_1)
  then show ?thesis
    using assms by (simp add: agg_fraction_def hl_div_def)
qed

lemma aggregate_gene_row:
  assumes "g \<in> set (aggregate_gene xs grp)"
  shows "grp \<noteq> []
       \<and> gene_id g = gene_id (hd grp)
       \<and> contig (i_start (gene_interval g)) = contig (locus (hd grp))
       \<and> contig (i_end (gene_interval g)) = contig (locus (hd grp))
       \<and> position (i_start (gene_interval g)) \<le> position (i_end (gene_interval g))
       \<and> (\<exists>f. frac_well_covered_bases g = Finite f \<and> 0 \<le> f \<and> f \<le> 1)"
proof (cases grp)
  case Nil
  with assms show ?thesis by simp
next
  case (Cons r rs)
  have le: "agg_min (position (locus r)) (map (\<lambda>q. position (locus q)) rs)
      \<le> agg_max (position (locus r)) (map (\<lambda>q. position (locus q)) rs)"
    using agg_min_le agg_max_ge by (rule order_trans)
  have fr: "\<exists>f. agg_fraction (map h (r # rs)) = Finite f \<and> 0 \<le> f \<and> f \<le> 1" for h :: "gene_cov \<Rightarrow> bool option"
    by (rule agg_fraction_range) simp
  from assms Cons obtain x where "x \<in> set xs" and g: "g = hd (aggregate_gene [x] (r # rs))"
    by auto
  show ?thesis
    unfolding g Cons using le fr by simp
qed

lemma export_row_origin:
  assumes "export_gene_coverage ht = Inr out" "g \<in> set out"
  shows "\<exists>gid \<in> set (map gene_id (filter_out_Y (ht_rows ht))).
           g \<in> set (aggregate_gene (cov_columns ht)
                      (filter (\<lambda>r. gene_id r = gid) (filter_out_Y (ht_rows ht))))"
  using assms by (auto simp: export_gene_coverage_def Let_def split: if_splits)

lemma export_example:
  "export_gene_coverage per_base_example = Inr summary_example"
  by (simp add: export_gene_coverage_def per_base_example_def summary_example_def
      filter_out_Y_def cov_columns_def startswith_def min_good_coverage_dp_def
      min_good_coverage_prop_def row_101_def row_100_def row_Y_def base_101_def
      agg_min_def agg_max_def agg_mean_def defined_values_def agg_sum_def agg_fraction_def hl_div_def cov_field_def)

text \<open>C9: every exported row has a fraction of well covered bases between 0 and 1
  and a gene interval whose start position is at most its end position.\<close>

theorem exported_fraction_and_interval:
  assumes "export_gene_coverage ht = Inr out" and "g \<in> set out"
  shows "(\<exists>f. frac_well_covered_bases g = Finite f \<and> 0 \<le> f \<and> f \<le> 1)
       \<and> position (i_start (gene_interval g)) \<le> position (i_end (gene_interval g))"
proof -
  from export_row_origin [OF assms] obtain gid where
    "g \<in> set (aggregate_gene (cov_columns ht)
               (filter (\<lambda>r. gene_id r = gid) (filter_out_Y (ht_rows ht))))"
    by blast
  from aggregate_gene_row [OF this] show ?thesis by blast
qed

theorem exported_fraction_and_interval_witness:
  "export_gene_coverage per_base_example = Inr summary_example
   \<and> hd summary_example \<in> set summary_example
   \<and> frac_well_covered_bases (hd summary_example) = Finite (1 / 2)
   \<and> position (i_start (gene_interval (hd summary_example))) = 100
   \<and> position (i_end (gene_interval (hd summary_example))) = 101
   \<and> position (i_start (gene_interval (hd summary_example)))
       \<le> position (i_end (gene_interval (hd summary_example)))"
proof -
  have m: "hd summary_example \<in> set summary_example"
    by (simp add: summary_example_def)
  from exported_fraction_and_interval [OF export_example m]
  have "position (i_start (gene_interval (hd summary_example)))
       \<le> position (i_end (gene_interval (hd summary_example)))"
    by (rule conjunct2)
  moreover have "frac_well_covered_bases (hd summary_example) = Finite (1 / 2)"
    "position (i_start (gene_interval (hd summary_example))) = 100"
    "position (i_end (gene_interval (hd summary_example))) = 101"
    by (simp_all add: summary_example_def)
  ultimately show ?thesis
    using export_example m by (simp only: simp_thms)
qed

lemma export_depends_on_non_Y:
  assumes "row_value ht' = row_value ht"
    and "filter_out_Y (ht_rows ht') = filter_out_Y (ht_rows ht)"
  shows "export_gene_coverage ht' = export_gene_coverage ht"
proof -
  have "cov_columns ht' = cov_columns ht"
    using assms(1) by (simp add: cov_columns_def)
  then show ?thesis
    using assms by (simp add: export_gene_coverage_def Let_def)
qed

lemma group_rows_not_Y:
  assumes "filter (\<lambda>r. gene_id r = gid) (filter_out_Y rs) \<noteq> []"
  shows "contig (locus (hd (filter (\<lambda>r. gene_id r = gid) (filter_out_Y rs)))) \<noteq> ''Y''
       \<and> gene_id (hd (filter (\<lambda>r. gene_id r = gid) (filter_out_Y rs))) = gid
       \<and> hd (filter (\<lambda>r. gene_id r = gid) (filter_out_Y rs)) \<in> set rs"
proof -
  have "hd (filter (\<lambda>r. gene_id r = gid) (filter_out_Y rs))
      \<in> set (filter (\<lambda>r. gene_id r = gid) (filter_out_Y rs))"
    using assms by (rule hd_in_set)
  then show ?thesis by (auto simp: filter_out_Y_def)
qed

text \<open>C6: two joined tables of one schema that agree outside the Y contig export the
  same summary, whatever rows they have on Y; every exported row is the summary of a
  gene with a row outside Y, and its interval is not on Y.\<close>

theorem Y_rows_excluded:
  assumes "row_value ht' = row_value ht"
    and "filter_out_Y (ht_rows ht') = filter_out_Y (ht_rows ht)"
  shows "export_gene_coverage ht' = export_gene_coverage ht
       \<and> (\<forall>out g. export_gene_coverage ht = Inr out \<longrightarrow> g \<in> set out \<longrightarrow>
            contig (i_start (gene_interval g)) \<noteq> ''Y''
          \<and> contig (i_end (gene_interval g)) \<noteq> ''Y''
          \<and> (\<exists>r \<in> set (ht_rows ht). contig (locus r) \<noteq> ''Y'' \<and> gene_id r = gene_id g))"
proof (intro conjI allI impI)
  show "export_gene_coverage ht' = export_gene_coverage ht"
    using assms by (rule export_depends_on_non_Y)
next
  fix out g
  assume "export_gene_coverage ht = Inr out" "g \<in> set out"
  from export_row_origin [OF this] obtain gid where
    g: "g \<in> set (aggregate_gene (cov_columns ht)
               (filter (\<lambda>r. gene_id r = gid) (filter_out_Y (ht_rows ht))))"
    by blast
  let ?grp = "filter (\<lambda>r. gene_id r = gid) (filter_out_Y (ht_rows ht))"
  from aggregate_gene_row [OF g] have ne: "?grp \<noteq> []"
    and gi: "gene_id g = gene_id (hd ?grp)"
    and cs: "contig (i_start (gene_interval g)) = contig (locus (hd ?grp))"
    and ce: "contig (i_end (gene_interval g)) = contig (locus (hd ?grp))"
    by blast+
  from group_rows_not_Y [OF ne] have y: "contig (locus (hd ?grp)) \<noteq> ''Y''"
    and gd: "gene_id (hd ?grp) = gid" and mem: "hd ?grp \<in> set (ht_rows ht)"
    by blast+
  show "contig (i_start (gene_interval g)) \<noteq> ''Y''" using cs y by simp
  show "contig (i_end (gene_interval g)) \<noteq> ''Y''" using ce y by simp
  show "\<exists>r \<in> set (ht_rows ht). contig (locus r) \<noteq> ''Y'' \<and> gene_id r = gene_id g"
  proof (rule bexI [OF _ mem])
    show "contig (locus (hd ?grp)) \<noteq> ''Y'' \<and> gene_id (hd ?grp) = gene_id g"
      using y gi by simp
  qed
qed

theorem Y_rows_excluded_witness:
  "row_value per_base_example_no_Y = row_value per_base_example
   \<and> filter_out_Y (ht_rows per_base_example_no_Y) = filter_out_Y (ht_rows per_base_example)
   \<and> row_Y \<in> set (ht_rows per_base_example)
   \<and> contig (locus row_Y) = ''Y''
   \<and> export_gene_coverage per_base_example_no_Y = export_gene_coverage per_base_example
   \<and> export_gene_coverage per_base_example = Inr summary_example
   \<and> map (\<lambda>g. contig (i_start (gene_interval g))) summary_example = [''1'', ''1'']"
proof -
  have h1: "row_value per_base_example_no_Y = row_value per_base_example"
    by (simp add: per_base_example_def per_base_example_no_Y_def)
  have h2: "filter_out_Y (ht_rows per_base_example_no_Y) = filter_out_Y (ht_rows per_base_example)"
    by (simp add: per_base_example_def per_base_example_no_Y_def filter_out_Y_def
        row_101_def row_100_def row_Y_def base_101_def)
  from Y_rows_excluded [OF h1 h2]
  have "export_gene_coverage per_base_example_no_Y = export_gene_coverage per_base_example"
    by (rule conjunct1)
  moreover have "row_Y \<in> set (ht_rows per_base_example)" "contig (locus row_Y) = ''Y''"
    by (simp_all add: per_base_example_def row_Y_def)
  moreover have "map (\<lambda>g. contig (i_start (gene_interval g))) summary_example = [''1'', ''1'']"
    by (simp add: summary_example_def)
  ultimately show ?thesis
    using h1 h2 export_example by (simp only: simp_thms)
qed

end
